theory Spec2Isabelle
  imports Complex_Main "HOL-Library.AList"
begin

section \<open>Fuzzy inference engine of \<open>code_1.py\<close>\<close>

text \<open>
  The development embeds the classes \<open>FuzzySet\<close>, \<open>Variable\<close> and \<open>FuzzySystem\<close> of
  \<open>code_1.py\<close>. Python numbers are modelled as \<^typ>\<open>real\<close>: integer and float arithmetic
  are both read as exact arithmetic, so rounding, overflow and NaN are outside the model.
  The two infinite floats appear only where the source tests for them (the defuzzification
  loop). Python dictionaries keep insertion order, and the order decides which exception is
  raised first, so a dictionary is an association list that is written with
  \<^const>\<open>AList.update\<close> (an existing key keeps its position, a new key goes to the end) and
  read with \<^const>\<open>map_of\<close>.
\<close>

subsection \<open>Values, exceptions and printed lines\<close>

type_synonym 'a dict = "(string \<times> 'a) list"

datatype py_error =
    ValueError
  | ZeroDivisionError
  | KeyError string
  | TypeError

datatype message =
    NotDefined string
  | UnknownOperator string

text \<open>
  \<open>NotDefined v\<close> is the line \<open>Error: Variable 'v' not defined.\<close>;
  \<open>UnknownOperator op\<close> is the line \<open>Unknown operator: op. Defaulting to 'and'.\<close>
\<close>

text \<open>Python's \<open>p / q\<close> on numbers: it raises for a zero divisor.\<close>

definition true_div :: "real \<Rightarrow> real \<Rightarrow> py_error + real" where
  "true_div p q = (if q = 0 then Inl ZeroDivisionError else Inr (p / q))"

text \<open>\<open>str.upper\<close>, on the ASCII letters.\<close>

definition upper_char :: "char \<Rightarrow> char" where
  "upper_char ch =
     (if 97 \<le> (of_char ch :: nat) \<and> (of_char ch :: nat) \<le> 122
      then char_of ((of_char ch :: nat) - 32) else ch)"

definition upper :: "string \<Rightarrow> string" where
  "upper s = map upper_char s"

subsection \<open>\<open>class FuzzySet\<close>\<close>

record FuzzySet =
  fs_name :: string
  fs_type :: string
  fs_values :: "real list"

text \<open>
  \<open>__init__\<close> stores its arguments, the type in upper case. It has no check and no
  \<open>raise\<close>, so it is a total function to \<^typ>\<open>FuzzySet\<close>.
\<close>

definition FuzzySet_init :: "string \<Rightarrow> string \<Rightarrow> real list \<Rightarrow> FuzzySet" where
  "FuzzySet_init name type' vals =
     \<lparr>fs_name = name, fs_type = upper type', fs_values = vals\<rparr>"

text \<open>
  \<open>fuzzify\<close> returns a number, or nothing at all (Python's \<open>None\<close>, here
  \<^const>\<open>None\<close>) when the type is neither \<open>TRI\<close> nor \<open>TRAP\<close>. Unpacking
  \<open>self.values\<close> raises \<open>ValueError\<close> on a wrong length, before any comparison.
\<close>

definition returned :: "py_error + real \<Rightarrow> py_error + real option" where
  "returned r = (case r of Inl e \<Rightarrow> Inl e | Inr v \<Rightarrow> Inr (Some v))"

definition fuzzify :: "FuzzySet \<Rightarrow> real \<Rightarrow> py_error + real option" where
  "fuzzify self crisp_value =
     (if fs_type self = ''TRI'' then
        (case fs_values self of
           [a, b, c] \<Rightarrow>
             if a \<le> crisp_value \<and> crisp_value \<le> b then
               returned (true_div (crisp_value - a) (b - a))
             else if b \<le> crisp_value \<and> crisp_value \<le> c then
               returned (true_div (c - crisp_value) (c - b))
             else Inr (Some 0)
         | _ \<Rightarrow> Inl ValueError)
      else if fs_type self = ''TRAP'' then
        (case fs_values self of
           [a, b, c, d] \<Rightarrow>
             if a \<le> crisp_value \<and> crisp_value \<le> b then
               returned (true_div (crisp_value - a) (b - a))
             else if b \<le> crisp_value \<and> crisp_value \<le> c then Inr (Some 1)
             else if c \<le> crisp_value \<and> crisp_value \<le> d then
               returned (true_div (d - crisp_value) (d - c))
             else Inr (Some 0)
         | _ \<Rightarrow> Inl ValueError)
      else Inr None)"

subsection \<open>\<open>class Variable\<close>\<close>

record Variable =
  var_name :: string
  var_type :: string
  var_range :: "real list"
  fuzzy_sets :: "FuzzySet dict"

definition Variable_init :: "string \<Rightarrow> string \<Rightarrow> real list \<Rightarrow> Variable" where
  "Variable_init name type' range' =
     \<lparr>var_name = name, var_type = upper type', var_range = range', fuzzy_sets = []\<rparr>"

definition add_fuzzy_set :: "Variable \<Rightarrow> FuzzySet \<Rightarrow> Variable" where
  "add_fuzzy_set self fuzzy_set =
     self\<lparr>fuzzy_sets := AList.update (fs_name fuzzy_set) fuzzy_set (fuzzy_sets self)\<rparr>"

subsection \<open>\<open>class FuzzySystem\<close>\<close>

text \<open>
  A rule is the tuple \<open>(in_vars, out_var, out_set)\<close>; an element of \<open>in_vars\<close> is
  \<open>(var_name, set_name, operator)\<close>.
\<close>

type_synonym clause = "string \<times> string \<times> string"
type_synonym rule = "clause list \<times> string \<times> string"

record FuzzySystem =
  sys_name :: string
  description :: string
  variables :: "Variable dict"
  rules :: "rule list"

definition FuzzySystem_init :: "string \<Rightarrow> string \<Rightarrow> FuzzySystem" where
  "FuzzySystem_init name descr =
     \<lparr>sys_name = name, description = descr, variables = [], rules = []\<rparr>"

definition add_variable :: "FuzzySystem \<Rightarrow> Variable \<Rightarrow> FuzzySystem" where
  "add_variable self variable =
     self\<lparr>variables := AList.update (var_name variable) variable (variables self)\<rparr>"

definition add_rule :: "FuzzySystem \<Rightarrow> rule \<Rightarrow> FuzzySystem" where
  "add_rule self r = self\<lparr>rules := rules self @ [r]\<rparr>"

subsection \<open>\<open>run_simulation\<close>: fuzzification (lines 53 to 62)\<close>

type_synonym fuzzified = "(real option dict) dict"

text \<open>
  The dictionary comprehension calls \<open>fuzzify\<close> on the fuzzy sets in order; the first
  exception ends it.
\<close>

fun fuzzify_sets :: "FuzzySet dict \<Rightarrow> real \<Rightarrow> real option dict \<Rightarrow> py_error + real option dict" where
  "fuzzify_sets [] crisp_value acc = Inr acc"
| "fuzzify_sets ((fs_nm, fs) # rest) crisp_value acc =
     (case fuzzify fs crisp_value of
        Inl e \<Rightarrow> Inl e
      | Inr d \<Rightarrow> fuzzify_sets rest crisp_value (AList.update fs_nm d acc))"

text \<open>
  The loop over \<open>crisp_values.items()\<close>. Its value is \<open>Inl e\<close> when an exception leaves
  the function, \<open>Inr None\<close> when the \<open>return\<close> of line 58 does (after the printed line),
  and \<open>Inr (Some fuzzified_values)\<close> when the loop runs to its end.
\<close>

fun fuzzify_inputs ::
  "Variable dict \<Rightarrow> (string \<times> real) list \<Rightarrow> fuzzified \<Rightarrow> message list \<times> (py_error + fuzzified option)"
where
  "fuzzify_inputs vars [] fuzzified_values = ([], Inr (Some fuzzified_values))"
| "fuzzify_inputs vars ((v_name, crisp_value) # rest) fuzzified_values =
     (case map_of vars v_name of
        None \<Rightarrow> ([NotDefined v_name], Inr None)
      | Some variable \<Rightarrow>
          (case fuzzify_sets (fuzzy_sets variable) crisp_value [] of
             Inl e \<Rightarrow> ([], Inl e)
           | Inr degrees \<Rightarrow>
               fuzzify_inputs vars rest (AList.update v_name degrees fuzzified_values)))"

subsection \<open>\<open>run_simulation\<close>: rule evaluation and aggregation (lines 64 to 86)\<close>

text \<open>
  \<open>min\<close>, \<open>max\<close> and \<open>1 - degree\<close> raise \<open>TypeError\<close> when the degree is \<open>None\<close>.
\<close>

definition py_min :: "real \<Rightarrow> real option \<Rightarrow> py_error + real" where
  "py_min m degree = (case degree of None \<Rightarrow> Inl TypeError | Some d \<Rightarrow> Inr (min m d))"

definition py_max :: "real \<Rightarrow> real option \<Rightarrow> py_error + real" where
  "py_max m degree = (case degree of None \<Rightarrow> Inl TypeError | Some d \<Rightarrow> Inr (max m d))"

definition py_min_not :: "real \<Rightarrow> real option \<Rightarrow> py_error + real" where
  "py_min_not m degree = (case degree of None \<Rightarrow> Inl TypeError | Some d \<Rightarrow> Inr (min m (1 - d)))"

text \<open>The body of the inner loop (lines 70 to 79): the printed lines and the new \<open>min_degree\<close>.\<close>

fun clause_step :: "fuzzified \<Rightarrow> real \<Rightarrow> clause \<Rightarrow> message list \<times> (py_error + real)" where
  "clause_step fuzzified_values min_degree (v_name, set_name, operator) =
     (case map_of fuzzified_values v_name of
        None \<Rightarrow> ([], Inl (KeyError v_name))
      | Some degrees \<Rightarrow>
          (let degree = (case map_of degrees set_name of None \<Rightarrow> Some 0 | Some d \<Rightarrow> d)
           in if operator = ''and'' then ([], py_min min_degree degree)
              else if operator = ''or'' then ([], py_max min_degree degree)
              else if operator = ''and_not'' then ([], py_min_not min_degree degree)
              else ([UnknownOperator operator], py_min min_degree degree)))"

fun firing_strength :: "fuzzified \<Rightarrow> clause list \<Rightarrow> real \<Rightarrow> message list \<times> (py_error + real)" where
  "firing_strength fuzzified_values [] min_degree = ([], Inr min_degree)"
| "firing_strength fuzzified_values (cl # rest) min_degree =
     (case clause_step fuzzified_values min_degree cl of
        (out, Inl e) \<Rightarrow> (out, Inl e)
      | (out, Inr m) \<Rightarrow>
          (case firing_strength fuzzified_values rest m of (out', r) \<Rightarrow> (out @ out', r)))"

text \<open>Lines 81 to 86.\<close>

definition aggregate :: "(real dict) dict \<Rightarrow> string \<Rightarrow> string \<Rightarrow> real \<Rightarrow> (real dict) dict" where
  "aggregate inferred_outputs out_var out_set min_degree =
     (let inferred = (if map_of inferred_outputs out_var = None
                      then AList.update out_var [] inferred_outputs else inferred_outputs);
          output = (case map_of inferred out_var of None \<Rightarrow> [] | Some d \<Rightarrow> d);
          old = (case map_of output out_set of None \<Rightarrow> 0 | Some d \<Rightarrow> d)
      in AList.update out_var (AList.update out_set (max old min_degree) output) inferred)"

fun infer ::
  "fuzzified \<Rightarrow> rule list \<Rightarrow> (real dict) dict \<Rightarrow> message list \<times> (py_error + (real dict) dict)"
where
  "infer fuzzified_values [] inferred_outputs = ([], Inr inferred_outputs)"
| "infer fuzzified_values ((in_vars, out_var, out_set) # rest) inferred_outputs =
     (case firing_strength fuzzified_values in_vars 1 of
        (out, Inl e) \<Rightarrow> (out, Inl e)
      | (out, Inr min_degree) \<Rightarrow>
          (case infer fuzzified_values rest (aggregate inferred_outputs out_var out_set min_degree)
           of (out', r) \<Rightarrow> (out @ out', r)))"

subsection \<open>\<open>run_simulation\<close>: defuzzification (lines 88 to 103)\<close>

text \<open>
  Line 94 compares the degree with the two infinite floats, so the degrees read by this
  loop are numbers or one of the two infinities.
\<close>

datatype pyfloat = Finite real | PosInf | NegInf

fun defuzzify_sets ::
  "FuzzySet dict \<Rightarrow> pyfloat dict \<Rightarrow> real \<Rightarrow> real \<Rightarrow> py_error + real \<times> real"
where
  "defuzzify_sets fsets [] numerator denominator = Inr (numerator, denominator)"
| "defuzzify_sets fsets ((set_name, PosInf) # rest) numerator denominator =
     defuzzify_sets fsets rest numerator denominator"
| "defuzzify_sets fsets ((set_name, NegInf) # rest) numerator denominator =
     defuzzify_sets fsets rest numerator denominator"
| "defuzzify_sets fsets ((set_name, Finite degree) # rest) numerator denominator =
     (case map_of fsets set_name of
        None \<Rightarrow> Inl (KeyError set_name)
      | Some fs \<Rightarrow>
          (case true_div (sum_list (fs_values fs)) (real (length (fs_values fs))) of
             Inl e \<Rightarrow> Inl e
           | Inr centroid \<Rightarrow>
               defuzzify_sets fsets rest (numerator + degree * centroid) (denominator + degree)))"

fun defuzzify :: "Variable dict \<Rightarrow> (pyfloat dict) dict \<Rightarrow> real dict \<Rightarrow> py_error + real dict" where
  "defuzzify vars [] results = Inr results"
| "defuzzify vars ((v_name, output) # rest) results =
     (case map_of vars v_name of
        None \<Rightarrow> Inl (KeyError v_name)
      | Some variable \<Rightarrow>
          (case defuzzify_sets (fuzzy_sets variable) output 0 0 of
             Inl e \<Rightarrow> Inl e
           | Inr (numerator, denominator) \<Rightarrow>
               defuzzify vars rest
                 (AList.update v_name
                    (if denominator > 0 then numerator / denominator else 0) results)))"

text \<open>
  The degrees that the inference loop leaves in \<open>inferred_outputs\<close> are numbers of the
  model, hence finite.
\<close>

definition as_floats :: "(real dict) dict \<Rightarrow> (pyfloat dict) dict" where
  "as_floats inferred_outputs =
     map (\<lambda>(v, output). (v, map (\<lambda>(s, d). (s, Finite d)) output)) inferred_outputs"

text \<open>
  The whole method: the printed lines, and the exception raised (\<open>Inl\<close>), the bare
  \<open>return\<close> (\<open>Inr None\<close>) or the returned \<open>results\<close>.
\<close>

definition run_simulation ::
  "FuzzySystem \<Rightarrow> (string \<times> real) list \<Rightarrow> message list \<times> (py_error + real dict option)"
where
  "run_simulation self crisp_values =
     (case fuzzify_inputs (variables self) crisp_values [] of
        (out, Inl e) \<Rightarrow> (out, Inl e)
      | (out, Inr None) \<Rightarrow> (out, Inr None)
      | (out, Inr (Some fuzzified_values)) \<Rightarrow>
          (case infer fuzzified_values (rules self) [] of
             (out', Inl e) \<Rightarrow> (out @ out', Inl e)
           | (out', Inr inferred_outputs) \<Rightarrow>
               (case defuzzify (variables self) (as_floats inferred_outputs) [] of
                  Inl e \<Rightarrow> (out @ out', Inl e)
                | Inr results \<Rightarrow> (out @ out', Inr (Some results)))))"

subsection \<open>\<open>load_test_case\<close>\<close>

text \<open>
  \<open>system.variables[v].add_fuzzy_set(FuzzySet(...))\<close>: the variable object is shared with
  the system, so the system sees the new fuzzy set. The function is applied only to names
  that \<open>add_variable\<close> has stored before, as in the source, where the lookup cannot fail.
\<close>

definition add_set_to :: "FuzzySystem \<Rightarrow> string \<Rightarrow> FuzzySet \<Rightarrow> FuzzySystem" where
  "add_set_to system v fuzzy_set =
     system\<lparr>variables := AList.map_entry v (\<lambda>x. add_fuzzy_set x fuzzy_set) (variables system)\<rparr>"

definition load_variables :: "FuzzySystem \<Rightarrow> FuzzySystem" where
  "load_variables system =
     add_variable
       (add_variable
          (add_variable system (Variable_init ''proj_funding'' ''IN'' [0, 100]))
          (Variable_init ''exp_level'' ''IN'' [0, 60]))
       (Variable_init ''risk'' ''OUT'' [0, 100])"

definition load_fuzzy_sets :: "FuzzySystem \<Rightarrow> FuzzySystem" where
  "load_fuzzy_sets system =
     foldl (\<lambda>s (v, fs). add_set_to s v fs) system
       [(''proj_funding'', FuzzySet_init ''very_low'' ''TRAP'' [0, 0, 10, 30]),
        (''proj_funding'', FuzzySet_init ''low'' ''TRAP'' [10, 30, 40, 60]),
        (''proj_funding'', FuzzySet_init ''medium'' ''TRAP'' [40, 60, 70, 90]),
        (''proj_funding'', FuzzySet_init ''high'' ''TRAP'' [70, 90, 100, 100]),
        (''exp_level'', FuzzySet_init ''beginner'' ''TRI'' [0, 15, 30]),
        (''exp_level'', FuzzySet_init ''intermediate'' ''TRI'' [15, 30, 45]),
        (''exp_level'', FuzzySet_init ''expert'' ''TRI'' [30, 60, 60]),
        (''risk'', FuzzySet_init ''low'' ''TRI'' [0, 25, 50]),
        (''risk'', FuzzySet_init ''normal'' ''TRI'' [25, 50, 75]),
        (''risk'', FuzzySet_init ''high'' ''TRI'' [50, 100, 100])]"

definition load_rules :: "FuzzySystem \<Rightarrow> FuzzySystem" where
  "load_rules system =
     foldl add_rule system
       [([(''proj_funding'', ''high'', ''or''), (''exp_level'', ''expert'', ''or'')],
         ''risk'', ''low''),
        ([(''proj_funding'', ''medium'', ''and''), (''exp_level'', ''intermediate'', ''and'')],
         ''risk'', ''normal''),
        ([(''proj_funding'', ''medium'', ''and''), (''exp_level'', ''beginner'', ''and'')],
         ''risk'', ''normal''),
        ([(''proj_funding'', ''low'', ''and''), (''exp_level'', ''beginner'', ''and'')],
         ''risk'', ''high''),
        ([(''proj_funding'', ''very_low'', ''and_not''), (''exp_level'', ''expert'', ''and_not'')],
         ''risk'', ''high'')]"

definition load_test_case :: "FuzzySystem \<Rightarrow> FuzzySystem" where
  "load_test_case system = load_rules (load_fuzzy_sets (load_variables system))"

definition test_case :: FuzzySystem where
  "test_case = load_test_case (FuzzySystem_init ''test_case'' ''Predefined system for testing.'')"

subsection \<open>Reference definitions\<close>

text \<open>
  The membership degree as the two piecewise-linear shapes define it: \<open>deg\<close> is the
  value at \<open>x\<close> when it agrees with every piece that covers \<open>x\<close>.
\<close>

definition triangular_ref :: "real \<Rightarrow> real \<Rightarrow> real \<Rightarrow> real \<Rightarrow> real \<Rightarrow> bool" where
  "triangular_ref a b c x deg \<longleftrightarrow>
     (a \<le> x \<and> x \<le> b \<longrightarrow> deg = (x - a) / (b - a)) \<and>
     (b \<le> x \<and> x \<le> c \<longrightarrow> deg = (c - x) / (c - b)) \<and>
     (\<not> (a \<le> x \<and> x \<le> b) \<and> \<not> (b \<le> x \<and> x \<le> c) \<longrightarrow> deg = 0)"

definition trapezoidal_ref :: "real \<Rightarrow> real \<Rightarrow> real \<Rightarrow> real \<Rightarrow> real \<Rightarrow> real \<Rightarrow> bool" where
  "trapezoidal_ref a b c d x deg \<longleftrightarrow>
     (a \<le> x \<and> x \<le> b \<longrightarrow> deg = (x - a) / (b - a)) \<and>
     (b \<le> x \<and> x \<le> c \<longrightarrow> deg = 1) \<and>
     (c \<le> x \<and> x \<le> d \<longrightarrow> deg = (d - x) / (d - c)) \<and>
     (\<not> (a \<le> x \<and> x \<le> b) \<and> \<not> (b \<le> x \<and> x \<le> c) \<and> \<not> (c \<le> x \<and> x \<le> d) \<longrightarrow>
        deg = 0)"

text \<open>
  The firing strength as a left fold: the degree of a clause is
  \<open>fuzzifiedDegrees[variableName].get(setName, 0)\<close>, and \<open>combine\<close> is minimum for
  \<open>and\<close> and for an unrecognized token, maximum for \<open>or\<close>, minimum with the complement
  for \<open>and_not\<close>.
\<close>

definition clause_degree :: "fuzzified \<Rightarrow> string \<Rightarrow> string \<Rightarrow> real" where
  "clause_degree fz v s =
     (case map_of fz v of
        None \<Rightarrow> 0
      | Some degrees \<Rightarrow> (case map_of degrees s of Some (Some d) \<Rightarrow> d | _ \<Rightarrow> 0))"

definition combine :: "real \<Rightarrow> real \<Rightarrow> string \<Rightarrow> real" where
  "combine acc d operator =
     (if operator = ''or'' then max acc d
      else if operator = ''and_not'' then min acc (1 - d)
      else min acc d)"

definition fold_strength :: "fuzzified \<Rightarrow> clause list \<Rightarrow> real" where
  "fold_strength fz in_vars =
     foldl (\<lambda>acc (v, s, operator). combine acc (clause_degree fz v s) operator) 1 in_vars"

text \<open>
  A clause can be evaluated when its variable has an entry in \<open>fuzzified_values\<close> and the
  degree found there for its set, if there is one, is a number.
\<close>

definition clause_ok :: "fuzzified \<Rightarrow> clause \<Rightarrow> bool" where
  "clause_ok fz cl =
     (case cl of (v, s, operator) \<Rightarrow>
        (case map_of fz v of
           None \<Rightarrow> False
         | Some degrees \<Rightarrow> map_of degrees s \<noteq> Some None))"

definition clauses_ok :: "fuzzified \<Rightarrow> clause list \<Rightarrow> bool" where
  "clauses_ok fz in_vars = list_all (clause_ok fz) in_vars"

text \<open>All numeric degrees of a fuzzification lie in the unit interval.\<close>

definition unit_degrees :: "fuzzified \<Rightarrow> bool" where
  "unit_degrees fz \<longleftrightarrow>
     (\<forall>v degrees s d. map_of fz v = Some degrees \<longrightarrow> map_of degrees s = Some (Some d) \<longrightarrow>
        0 \<le> d \<and> d \<le> 1)"

text \<open>
  Reading \<open>inferred_outputs\<close> at an (output variable, output set) pair, 0 where the pair
  has no entry; and the rules that conclude the pair.
\<close>

definition aggregated_degree :: "(real dict) dict \<Rightarrow> string \<Rightarrow> string \<Rightarrow> real" where
  "aggregated_degree inferred_outputs v s =
     (case map_of inferred_outputs v of
        None \<Rightarrow> 0
      | Some output \<Rightarrow> (case map_of output s of None \<Rightarrow> 0 | Some d \<Rightarrow> d))"

definition concluding :: "rule list \<Rightarrow> string \<Rightarrow> string \<Rightarrow> rule list" where
  "concluding rs v s = filter (\<lambda>(in_vars, out_var, out_set). out_var = v \<and> out_set = s) rs"

text \<open>
  The weighted average of the representative points: the pairs with an infinite degree
  are left out, the representative point of a set is the mean of its parameters.
\<close>

fun finite_degrees :: "pyfloat dict \<Rightarrow> real dict" where
  "finite_degrees [] = []"
| "finite_degrees ((s, Finite d) # rest) = (s, d) # finite_degrees rest"
| "finite_degrees ((s, PosInf) # rest) = finite_degrees rest"
| "finite_degrees ((s, NegInf) # rest) = finite_degrees rest"

definition mean :: "real list \<Rightarrow> real" where
  "mean vals = sum_list vals / real (length vals)"

definition representative :: "FuzzySet dict \<Rightarrow> string \<Rightarrow> real" where
  "representative fsets s = (case map_of fsets s of None \<Rightarrow> 0 | Some fs \<Rightarrow> mean (fs_values fs))"

definition weighted_sum :: "FuzzySet dict \<Rightarrow> real dict \<Rightarrow> real" where
  "weighted_sum fsets pairs = sum_list (map (\<lambda>(s, d). d * representative fsets s) pairs)"

definition degree_sum :: "real dict \<Rightarrow> real" where
  "degree_sum pairs = sum_list (map snd pairs)"

definition weighted_average :: "FuzzySet dict \<Rightarrow> pyfloat dict \<Rightarrow> real" where
  "weighted_average fsets output =
     (if degree_sum (finite_degrees output) > 0
      then weighted_sum fsets (finite_degrees output) / degree_sum (finite_degrees output)
      else 0)"

text \<open>
  The lookups of the defuzzification loop succeed: the variable is in the model, and
  every set with a finite degree is one of its fuzzy sets, with at least one parameter.
\<close>

definition sets_defined :: "FuzzySet dict \<Rightarrow> pyfloat dict \<Rightarrow> bool" where
  "sets_defined fsets output =
     list_all (\<lambda>(s, d). case map_of fsets s of None \<Rightarrow> False | Some fs \<Rightarrow> fs_values fs \<noteq> [])
       (finite_degrees output)"

definition outputs_defined :: "Variable dict \<Rightarrow> (pyfloat dict) dict \<Rightarrow> bool" where
  "outputs_defined vars inferred_outputs =
     list_all (\<lambda>(v, output).
        case map_of vars v of
          None \<Rightarrow> False
        | Some variable \<Rightarrow> sets_defined (fuzzy_sets variable) output) inferred_outputs"

text \<open>
  A rule is well formed for a model and a fuzzification when its clauses can be evaluated
  and its consequent names a fuzzy set, with at least one parameter, of a variable of the
  model.
\<close>

definition rule_ok :: "Variable dict \<Rightarrow> fuzzified \<Rightarrow> rule \<Rightarrow> bool" where
  "rule_ok vars fz r =
     (case r of (in_vars, out_var, out_set) \<Rightarrow>
        clauses_ok fz in_vars \<and>
        (case map_of vars out_var of
           None \<Rightarrow> False
         | Some variable \<Rightarrow>
             (case map_of (fuzzy_sets variable) out_set of
                None \<Rightarrow> False
              | Some fs \<Rightarrow> fs_values fs \<noteq> [])))"

subsection \<open>The test run of \<open>main\<close>\<close>

text \<open>
  Choice 2 of the menu runs the predefined system on \<open>test_inputs\<close> (line 263);
  \<open>test_fuzzified\<close> is the value that \<open>fuzzified_values\<close> has after the first loop of
  that run.
\<close>

definition test_inputs :: "(string \<times> real) list" where
  "test_inputs = [(''proj_funding'', 50), (''exp_level'', 40)]"

definition test_fuzzified :: fuzzified where
  "test_fuzzified =
     [(''proj_funding'',
       [(''very_low'', Some 0), (''low'', Some (1 / 2)), (''medium'', Some (1 / 2)),
        (''high'', Some 0)]),
      (''exp_level'',
       [(''beginner'', Some 0), (''intermediate'', Some (1 / 3)), (''expert'', Some (1 / 3))])]"

text \<open>The value of \<open>inferred_outputs\<close> after the second loop of that run.\<close>

definition test_inferred :: "(real dict) dict" where
  "test_inferred = [(''risk'', [(''low'', 1), (''normal'', 1 / 3), (''high'', 2 / 3)])]"

subsection \<open>Further test data\<close>

text \<open>
  A system with one input, one output and one rule, built with the same calls as
  \<open>load_test_case\<close>; and a value of \<open>inferred_outputs\<close> for the predefined system in
  which one degree is infinite.
\<close>

definition fan_system :: FuzzySystem where
  "fan_system =
     add_rule
       (add_set_to
          (add_set_to
             (add_variable
                (add_variable (FuzzySystem_init ''fan'' ''One rule.'')
                   (Variable_init ''temp'' ''IN'' [0, 40]))
                (Variable_init ''fan'' ''OUT'' [0, 100]))
             ''temp'' (FuzzySet_init ''hot'' ''TRI'' [0, 10, 20]))
          ''fan'' (FuzzySet_init ''fast'' ''TRI'' [0, 50, 100]))
       ([(''temp'', ''hot'', ''and'')], ''fan'', ''fast'')"

definition inferred_with_infinity :: "(pyfloat dict) dict" where
  "inferred_with_infinity =
     [(''risk'', [(''low'', Finite 1), (''normal'', PosInf), (''high'', Finite (2 / 3))])]"

section \<open>Properties\<close>

subsection \<open>Membership functions\<close>

lemma upper_TRI: "upper ''TRI'' = ''TRI''"
  by code_simp

lemma upper_TRAP: "upper ''TRAP'' = ''TRAP''"
  by code_simp

lemma upper_gauss: "upper ''gauss'' = ''GAUSS''"
  by code_simp

lemma triangular_fuzzify:
  assumes "fs_type self = ''TRI''" "fs_values self = [a, b, c]" "a < b" "b < c"
  shows "\<exists>deg. fuzzify self x = Inr (Some deg) \<and> triangular_ref a b c x deg \<and> 0 \<le> deg \<and> deg \<le> 1"
  using assms by (auto simp: fuzzify_def true_div_def returned_def triangular_ref_def)

lemma trapezoidal_fuzzify:
  assumes "fs_type self = ''TRAP''" "fs_values self = [a, b, c, d]" "a < b" "b \<le> c" "c < d"
  shows "\<exists>deg. fuzzify self x = Inr (Some deg) \<and> trapezoidal_ref a b c d x deg \<and> 0 \<le> deg \<and> deg \<le> 1"
  using assms by (auto simp: fuzzify_def true_div_def returned_def trapezoidal_ref_def)

text \<open>
  Whatever the parameters are, a number returned by \<open>fuzzify\<close> lies in the unit interval:
  each quotient is taken under the guard that bounds its numerator by its divisor.
\<close>

lemma true_div_unit:
  assumes "true_div p q = Inr r" "0 \<le> p" "p \<le> q"
  shows "0 \<le> r \<and> r \<le> 1"
  using assms by (auto simp: true_div_def split: if_splits)

lemma fuzzify_unit:
  assumes "fuzzify self x = Inr (Some deg)"
  shows "0 \<le> deg \<and> deg \<le> 1"
proof (cases "fs_type self = ''TRI''")
  case True
  with assms obtain a b c where v: "fs_values self = [a, b, c]"
    by (auto simp: fuzzify_def split: list.splits)
  show ?thesis
    using assms True v
    by (auto simp: fuzzify_def returned_def split: if_splits sum.splits dest: true_div_unit)
next
  case False
  note not_tri = this
  show ?thesis
  proof (cases "fs_type self = ''TRAP''")
    case True
    with assms not_tri obtain a b c d where v: "fs_values self = [a, b, c, d]"
      by (auto simp: fuzzify_def split: list.splits)
    show ?thesis
      using assms True v
      by (auto simp: fuzzify_def returned_def split: if_splits sum.splits dest: true_div_unit)
  next
    case False
    with assms not_tri show ?thesis by (simp add: fuzzify_def)
  qed
qed

text \<open>
  Claim C6. For a triangular set with parameters \<open>a < b < c\<close> and a trapezoidal set with
  parameters \<open>a < b \<le> c < d\<close>, \<open>fuzzify\<close> returns at every real \<open>x\<close> the value of the
  piecewise-linear reference definition, and that value lies in \<open>[0, 1]\<close>.
\<close>

theorem fuzzify_piecewise_linear:
  "(fs_type self = ''TRI'' \<and> fs_values self = [a, b, c] \<and> a < b \<and> b < c \<longrightarrow>
      (\<exists>deg. fuzzify self x = Inr (Some deg) \<and> triangular_ref a b c x deg \<and>
         0 \<le> deg \<and> deg \<le> 1)) \<and>
   (fs_type self = ''TRAP'' \<and> fs_values self = [a, b, c, d] \<and> a < b \<and> b \<le> c \<and> c < d \<longrightarrow>
      (\<exists>deg. fuzzify self x = Inr (Some deg) \<and> trapezoidal_ref a b c d x deg \<and>
         0 \<le> deg \<and> deg \<le> 1))"
  using triangular_fuzzify trapezoidal_fuzzify by blast

theorem fuzzify_piecewise_linear_witness:
  "fuzzify (FuzzySet_init ''intermediate'' ''TRI'' [15, 30, 45]) 40 =
     Inr (Some ((45 - 40) / (45 - 30))) \<and>
   fuzzify (FuzzySet_init ''low'' ''TRAP'' [10, 30, 40, 60]) 50 =
     Inr (Some ((60 - 50) / (60 - 40)))"
  using
    fuzzify_piecewise_linear
      [where self = "FuzzySet_init ''intermediate'' ''TRI'' [15, 30, 45]"
         and a = 15 and b = 30 and c = 45 and x = 40]
    fuzzify_piecewise_linear
      [where self = "FuzzySet_init ''low'' ''TRAP'' [10, 30, 40, 60]"
         and a = 10 and b = 30 and c = 40 and d = 60 and x = 50]
  by (auto simp: FuzzySet_init_def upper_TRI upper_TRAP triangular_ref_def trapezoidal_ref_def)

text \<open>
  Claim C10. When the stored type is neither \<open>TRI\<close> nor \<open>TRAP\<close>, \<open>fuzzify\<close> returns
  \<open>None\<close> at every \<open>x\<close>: no degree and no exception. A clause that reads this degree
  cannot combine it: the step raises \<open>TypeError\<close>, whatever its operator.
\<close>

theorem fuzzify_unknown_type:
  assumes "fs_type self \<noteq> ''TRI''" and "fs_type self \<noteq> ''TRAP''"
  shows "fuzzify self x = Inr None \<and>
         snd (clause_step [(v, [(s, None)])] m (v, s, operator)) = Inl TypeError"
  using assms by (simp add: fuzzify_def py_min_def py_max_def py_min_not_def)

theorem fuzzify_unknown_type_witness:
  "fuzzify (FuzzySet_init ''bell'' ''gauss'' [0, 1]) 0 = Inr None \<and>
   snd (clause_step [(''v'', [(''bell'', None)])] 1 (''v'', ''bell'', ''and'')) = Inl TypeError"
  using
    fuzzify_unknown_type
      [where self = "FuzzySet_init ''bell'' ''gauss'' [0, 1]" and x = 0
         and v = "''v''" and s = "''bell''" and m = 1 and operator = "''and''"]
  by (simp add: FuzzySet_init_def upper_gauss)

text \<open>
  Claim C9 says that a wrong parameter count is rejected when the membership function is
  constructed. The constructor has no check: a triangular set with two parameters is
  constructed, and the failure comes from \<open>fuzzify\<close>, as a \<open>ValueError\<close>.
\<close>

theorem construction_accepts_wrong_count:
  "fs_values (FuzzySet_init ''bad'' ''TRI'' [1, 2]) = [1, 2] \<and>
   fuzzify (FuzzySet_init ''bad'' ''TRI'' [1, 2]) 1 = Inl ValueError"
  by (simp add: FuzzySet_init_def upper_TRI fuzzify_def)

text \<open>
  Claim C9, amended. Construction stores the parameters whatever their number. When the
  number is wrong for the declared shape (other than 3 for \<open>TRI\<close>, other than 4 for
  \<open>TRAP\<close>), every call of \<open>fuzzify\<close> raises \<open>ValueError\<close>: the malformed function is
  rejected at fuzzification time.
\<close>

theorem wrong_count_raises_in_fuzzify:
  assumes "(upper ty = ''TRI'' \<and> length vals \<noteq> 3) \<or> (upper ty = ''TRAP'' \<and> length vals \<noteq> 4)"
  shows "fs_values (FuzzySet_init n ty vals) = vals \<and>
         fuzzify (FuzzySet_init n ty vals) x = Inl ValueError"
  using assms by (auto simp: FuzzySet_init_def fuzzify_def split: list.splits)

theorem wrong_count_raises_in_fuzzify_witness:
  "fs_values (FuzzySet_init ''bad'' ''TRAP'' [1, 2, 3]) = [1, 2, 3] \<and>
   fuzzify (FuzzySet_init ''bad'' ''TRAP'' [1, 2, 3]) 2 = Inl ValueError"
  using
    wrong_count_raises_in_fuzzify
      [where ty = "''TRAP''" and vals = "[1, 2, 3]" and n = "''bad''" and x = 2]
  by (simp add: upper_TRAP)

subsection \<open>Rule evaluation\<close>

lemma clause_step_combine:
  assumes "clause_ok fz (v, s, operator)"
  shows "snd (clause_step fz m (v, s, operator)) = Inr (combine m (clause_degree fz v s) operator)"
  using assms
  by (auto simp: clause_ok_def clause_degree_def combine_def py_min_def py_max_def py_min_not_def
           split: option.splits)

lemma firing_strength_foldl:
  assumes "clauses_ok fz in_vars"
  shows "snd (firing_strength fz in_vars m) =
         Inr (foldl (\<lambda>acc (v, s, operator). combine acc (clause_degree fz v s) operator) m in_vars)"
  using assms
proof (induction in_vars arbitrary: m)
  case Nil
  then show ?case by simp
next
  case (Cons cl rest)
  obtain v s operator where cl: "cl = (v, s, operator)" by (cases cl) auto
  from Cons.prems have ok: "clause_ok fz (v, s, operator)" and rest: "clauses_ok fz rest"
    by (simp_all add: clauses_ok_def cl)
  obtain out where step: "clause_step fz m (v, s, operator) = (out, Inr (combine m (clause_degree fz v s) operator))"
    using clause_step_combine [OF ok, of m] by (cases "clause_step fz m (v, s, operator)") auto
  show ?case
    using Cons.IH [OF rest, of "combine m (clause_degree fz v s) operator"] step
    by (auto simp add: cl simp del: clause_step.simps split: prod.splits)
qed

text \<open>
  Claim C1. When every clause of a rule can be evaluated, the firing strength that the
  inner loop computes is the left fold over the clauses, in order, from the accumulator 1:
  each step reads \<open>fuzzified_values[var_name].get(set_name, 0)\<close> (0 for a set name
  without an entry) and combines by \<open>min\<close> for \<open>and\<close>, \<open>max\<close> for \<open>or\<close>,
  \<open>min\<close> with \<open>1 - degree\<close> for \<open>and_not\<close>, and \<open>min\<close> for any other token.
\<close>

theorem firing_strength_is_left_fold:
  assumes "clauses_ok fz in_vars"
  shows "snd (firing_strength fz in_vars 1) = Inr (fold_strength fz in_vars)"
  using firing_strength_foldl [OF assms] by (simp add: fold_strength_def)

theorem firing_strength_is_left_fold_witness:
  "clauses_ok test_fuzzified
     [(''proj_funding'', ''very_low'', ''and_not''), (''exp_level'', ''expert'', ''and_not''),
      (''exp_level'', ''guru'', ''and_not''), (''proj_funding'', ''low'', ''xor'')] \<and>
   snd (firing_strength test_fuzzified
     [(''proj_funding'', ''very_low'', ''and_not''), (''exp_level'', ''expert'', ''and_not''),
      (''exp_level'', ''guru'', ''and_not''), (''proj_funding'', ''low'', ''xor'')] 1) =
     Inr (1 / 2)"
proof -
  let ?cls =
    "[(''proj_funding'', ''very_low'', ''and_not''), (''exp_level'', ''expert'', ''and_not''),
      (''exp_level'', ''guru'', ''and_not''), (''proj_funding'', ''low'', ''xor'')]"
  have h: "clauses_ok test_fuzzified ?cls"
    by code_simp
  have v: "fold_strength test_fuzzified ?cls = 1 / 2"
    by code_simp
  show ?thesis
    using h v firing_strength_is_left_fold [OF h] by simp
qed

lemma combine_unit:
  assumes "0 \<le> m" "m \<le> 1" "0 \<le> d" "d \<le> 1"
  shows "0 \<le> combine m d operator \<and> combine m d operator \<le> 1"
  using assms by (auto simp: combine_def)

lemma clause_degree_unit:
  assumes "unit_degrees fz"
  shows "0 \<le> clause_degree fz v s \<and> clause_degree fz v s \<le> 1"
  using assms by (auto simp: unit_degrees_def clause_degree_def split: option.splits)

lemma foldl_combine_unit:
  assumes "unit_degrees fz" "0 \<le> m" "m \<le> 1"
  shows "0 \<le> foldl (\<lambda>acc (v, s, operator). combine acc (clause_degree fz v s) operator) m in_vars \<and>
         foldl (\<lambda>acc (v, s, operator). combine acc (clause_degree fz v s) operator) m in_vars \<le> 1"
  using assms(2,3)
proof (induction in_vars arbitrary: m)
  case Nil
  then show ?case by simp
next
  case (Cons cl rest)
  obtain v s operator where cl: "cl = (v, s, operator)" by (cases cl) auto
  have d: "0 \<le> clause_degree fz v s" "clause_degree fz v s \<le> 1"
    using clause_degree_unit [OF assms(1), of v s] by simp_all
  show ?case
    using Cons.IH [of "combine m (clause_degree fz v s) operator"]
      combine_unit [OF Cons.prems d, of operator]
    by (simp add: cl)
qed

lemma fold_strength_unit:
  assumes "unit_degrees fz"
  shows "0 \<le> fold_strength fz in_vars \<and> fold_strength fz in_vars \<le> 1"
  using foldl_combine_unit [OF assms, of 1 in_vars] by (simp add: fold_strength_def)

lemma map_of_update_Some:
  "map_of (AList.update k v al) k' = (if k' = k then Some v else map_of al k')"
  by (simp add: update_conv')

lemma fuzzify_sets_unit:
  assumes "fuzzify_sets fsets x acc = Inr degrees"
    and "\<And>s d. map_of acc s = Some (Some d) \<Longrightarrow> 0 \<le> d \<and> d \<le> 1"
    and "map_of degrees s = Some (Some d)"
  shows "0 \<le> d \<and> d \<le> 1"
  using assms
proof (induction fsets x acc rule: fuzzify_sets.induct)
  case (1 crisp_value acc)
  then show ?case by simp
next
  case (2 fs_nm fs rest crisp_value acc)
  from "2.prems"(1) obtain deg where f: "fuzzify fs crisp_value = Inr deg"
    and r: "fuzzify_sets rest crisp_value (AList.update fs_nm deg acc) = Inr degrees"
    by (auto split: sum.splits)
  have "\<And>s d. map_of (AList.update fs_nm deg acc) s = Some (Some d) \<Longrightarrow> 0 \<le> d \<and> d \<le> 1"
    using "2.prems"(2) fuzzify_unit [of fs crisp_value] f
    by (auto simp: map_of_update_Some split: if_splits)
  then show ?case
    using "2.IH" [OF f r _ "2.prems"(3)] by blast
qed

lemma fuzzify_inputs_unit:
  assumes "fuzzify_inputs vars crisp fz = (out, Inr (Some fz'))" and "unit_degrees fz"
  shows "unit_degrees fz'"
  using assms
proof (induction vars crisp fz rule: fuzzify_inputs.induct)
  case (1 vars fuzzified_values)
  then show ?case by simp
next
  case (2 vars v_name crisp_value rest fuzzified_values)
  from "2.prems"(1) obtain variable degrees where
    v: "map_of vars v_name = Some variable" and
    d: "fuzzify_sets (fuzzy_sets variable) crisp_value [] = Inr degrees" and
    r: "fuzzify_inputs vars rest (AList.update v_name degrees fuzzified_values) = (out, Inr (Some fz'))"
    by (auto split: option.splits sum.splits)
  have "unit_degrees (AList.update v_name degrees fuzzified_values)"
    unfolding unit_degrees_def
  proof (intro allI impI)
    fix v ds s x
    assume a: "map_of (AList.update v_name degrees fuzzified_values) v = Some ds"
      and b: "map_of ds s = Some (Some x)"
    show "0 \<le> x \<and> x \<le> 1"
    proof (cases "v = v_name")
      case True
      with a have "ds = degrees" by (simp add: map_of_update_Some)
      with b fuzzify_sets_unit [OF d] show ?thesis by simp
    next
      case False
      with a have "map_of fuzzified_values v = Some ds" by (simp add: map_of_update_Some)
      with b "2.prems"(2) show ?thesis unfolding unit_degrees_def by blast
    qed
  qed
  then show ?case
    using "2.IH" [OF v d r] by simp
qed

lemma unit_degrees_empty: "unit_degrees []"
  by (simp add: unit_degrees_def)

lemma fuzzified_unit:
  assumes "fuzzify_inputs vars crisp [] = (out, Inr (Some fz))"
  shows "unit_degrees fz"
  using fuzzify_inputs_unit [OF assms unit_degrees_empty] .

lemma foldl_or_pinned:
  assumes "unit_degrees fz" "list_all (\<lambda>(v, s, operator). operator = ''or'') in_vars"
  shows "foldl (\<lambda>acc (v, s, operator). combine acc (clause_degree fz v s) operator) 1 in_vars = 1"
  using assms(2)
proof (induction in_vars)
  case Nil
  then show ?case by simp
next
  case (Cons cl rest)
  obtain v s operator where cl: "cl = (v, s, operator)" by (cases cl) auto
  with Cons.prems have op: "operator = ''or''" by simp
  have "combine 1 (clause_degree fz v s) ''or'' = 1"
    using clause_degree_unit [OF assms(1), of v s] by (simp add: combine_def)
  with Cons cl op show ?case by simp
qed

lemma firing_strength_no_output:
  assumes "list_all (\<lambda>(v, s, operator). operator = ''or'') in_vars"
  shows "fst (firing_strength fz in_vars m) = []"
  using assms
proof (induction in_vars arbitrary: m)
  case Nil
  then show ?case by simp
next
  case (Cons cl rest)
  obtain v s operator where cl: "cl = (v, s, operator)" by (cases cl) auto
  with Cons.prems have op: "operator = ''or''" and r: "list_all (\<lambda>(v, s, operator). operator = ''or'') rest" by simp_all
  show ?case
    using Cons.IH [OF r] 
    by (auto simp: cl op split: option.splits prod.splits sum.splits)
qed

lemma test_run_fuzzified:
  "fuzzify_inputs (variables test_case) test_inputs [] = ([], Inr (Some test_fuzzified))"
  by code_simp

text \<open>
  Claim C2. A first clause with operator \<open>or\<close> whose degree lies in \<open>[0, 1]\<close> leaves the
  accumulator at 1; and in a run whose fuzzification succeeded, a rule whose clauses all
  use \<open>or\<close> has firing strength 1.
\<close>

theorem leading_or_pins_accumulator:
  "(clause_ok fz (v, s, ''or'') \<and> 0 \<le> clause_degree fz v s \<and> clause_degree fz v s \<le> 1 \<longrightarrow>
      clause_step fz 1 (v, s, ''or'') = ([], Inr 1)) \<and>
   (fuzzify_inputs vars crisp [] = (out, Inr (Some fz)) \<and> clauses_ok fz in_vars \<and>
    list_all (\<lambda>(v, s, operator). operator = ''or'') in_vars \<longrightarrow>
      firing_strength fz in_vars 1 = ([], Inr 1))"
proof (intro conjI impI)
  assume a: "clause_ok fz (v, s, ''or'') \<and> 0 \<le> clause_degree fz v s \<and> clause_degree fz v s \<le> 1"
  then show "clause_step fz 1 (v, s, ''or'') = ([], Inr 1)"
    by (auto simp: clause_ok_def clause_degree_def py_max_def split: option.splits)
next
  assume a: "fuzzify_inputs vars crisp [] = (out, Inr (Some fz)) \<and> clauses_ok fz in_vars \<and>
    list_all (\<lambda>(v, s, operator). operator = ''or'') in_vars"
  then have u: "unit_degrees fz" using fuzzified_unit by blast
  have "snd (firing_strength fz in_vars 1) = Inr 1"
    using firing_strength_foldl [of fz in_vars 1] foldl_or_pinned [OF u] a by simp
  moreover have "fst (firing_strength fz in_vars 1) = []"
    using firing_strength_no_output a by blast
  ultimately show "firing_strength fz in_vars 1 = ([], Inr 1)"
    by (cases "firing_strength fz in_vars 1") simp
qed

theorem leading_or_pins_accumulator_witness:
  "clause_ok test_fuzzified (''exp_level'', ''expert'', ''or'') \<and>
   clause_degree test_fuzzified ''exp_level'' ''expert'' = 1 / 3 \<and>
   clause_step test_fuzzified 1 (''exp_level'', ''expert'', ''or'') = ([], Inr 1) \<and>
   firing_strength test_fuzzified
     [(''proj_funding'', ''high'', ''or''), (''exp_level'', ''expert'', ''or'')] 1 = ([], Inr 1)"
proof -
  let ?cls = "[(''proj_funding'', ''high'', ''or''), (''exp_level'', ''expert'', ''or'')]"
  have h1: "clause_ok test_fuzzified (''exp_level'', ''expert'', ''or'')"
    by code_simp
  have h2: "clause_degree test_fuzzified ''exp_level'' ''expert'' = 1 / 3"
    by code_simp
  have h3: "clauses_ok test_fuzzified ?cls"
    by code_simp
  have h4: "list_all (\<lambda>(v, s, operator). operator = ''or'') ?cls"
    by simp
  show ?thesis
    using h1 h2 h3 h4 test_run_fuzzified
      leading_or_pins_accumulator
        [where fz = test_fuzzified and v = "''exp_level''" and s = "''expert''"
           and vars = "variables test_case" and crisp = test_inputs and out = "[]"
           and in_vars = ?cls]
    by (simp del: clause_step.simps firing_strength.simps)
qed

subsection \<open>Aggregation\<close>

lemma aggregated_degree_aggregate:
  "aggregated_degree (aggregate acc out_var out_set m) v s =
     (if out_var = v \<and> out_set = s then max (aggregated_degree acc v s) m
      else aggregated_degree acc v s)"
  by (auto simp: aggregated_degree_def aggregate_def Let_def map_of_update_Some
           split: option.splits)

lemma clause_step_Inr_ok:
  assumes "snd (clause_step fz m cl) = Inr st"
  shows "clause_ok fz cl"
proof -
  obtain v s operator where cl: "cl = (v, s, operator)" by (cases cl) auto
  show ?thesis
    using assms
    by (auto simp: cl clause_ok_def py_min_def py_max_def py_min_not_def Let_def
             split: option.splits if_splits)
qed

lemma firing_strength_Inr_ok:
  assumes "snd (firing_strength fz in_vars m) = Inr st"
  shows "clauses_ok fz in_vars"
  using assms
proof (induction in_vars arbitrary: m)
  case Nil
  then show ?case by (simp add: clauses_ok_def)
next
  case (Cons cl rest)
  obtain out r where step: "clause_step fz m cl = (out, r)" by (cases "clause_step fz m cl") auto
  from Cons.prems step obtain m' where r: "r = Inr m'"
    by (cases r) (auto simp del: clause_step.simps)
  from Cons.prems step r have "snd (firing_strength fz rest m') = Inr st"
    by (auto simp del: clause_step.simps split: prod.splits)
  then have "clauses_ok fz rest" by (rule Cons.IH)
  moreover have "clause_ok fz cl"
    using clause_step_Inr_ok [of fz m cl m'] step r by simp
  ultimately show ?case by (simp add: clauses_ok_def)
qed

lemma firing_strength_unit:
  assumes "unit_degrees fz" "snd (firing_strength fz in_vars 1) = Inr st"
  shows "0 \<le> st \<and> st \<le> 1"
proof -
  have "clauses_ok fz in_vars" using assms(2) by (rule firing_strength_Inr_ok)
  then have "st = fold_strength fz in_vars"
    using firing_strength_foldl [of fz in_vars 1] assms(2) by (simp add: fold_strength_def)
  then show ?thesis using fold_strength_unit [OF assms(1)] by simp
qed

lemma infer_aggregated:
  assumes "infer fz rs acc = (out, Inr inferred)"
  shows "\<exists>strengths.
           list_all2 (\<lambda>r st. snd (firing_strength fz (fst r) 1) = Inr st) (concluding rs v s) strengths \<and>
           aggregated_degree inferred v s = foldl max (aggregated_degree acc v s) strengths"
  using assms
proof (induction rs arbitrary: acc out)
  case Nil
  then show ?case by (simp add: concluding_def)
next
  case (Cons r rest)
  obtain in_vars out_var out_set where r: "r = (in_vars, out_var, out_set)" by (cases r) auto
  obtain o1 res where fs: "firing_strength fz in_vars 1 = (o1, res)"
    by (cases "firing_strength fz in_vars 1") auto
  from Cons.prems r fs obtain m where res: "res = Inr m"
    by (cases res) auto
  obtain o2 where rest: "infer fz rest (aggregate acc out_var out_set m) = (o2, Inr inferred)"
    using Cons.prems r fs res by (auto split: prod.splits)
  from Cons.IH [OF rest] obtain strengths where
    l: "list_all2 (\<lambda>r st. snd (firing_strength fz (fst r) 1) = Inr st) (concluding rest v s) strengths"
    and a: "aggregated_degree inferred v s =
            foldl max (aggregated_degree (aggregate acc out_var out_set m) v s) strengths"
    by blast
  show ?case
  proof (cases "out_var = v \<and> out_set = s")
    case True
    then have "list_all2 (\<lambda>r st. snd (firing_strength fz (fst r) 1) = Inr st)
                 (concluding (r # rest) v s) (m # strengths)"
      using l fs res by (simp add: concluding_def r)
    moreover have "aggregated_degree inferred v s = foldl max (aggregated_degree acc v s) (m # strengths)"
      using a True by (simp add: aggregated_degree_aggregate)
    ultimately show ?thesis by blast
  next
    case False
    then have "concluding (r # rest) v s = concluding rest v s"
      by (auto simp: concluding_def r)
    moreover have "aggregated_degree inferred v s = foldl max (aggregated_degree acc v s) strengths"
      using a False by (simp add: aggregated_degree_aggregate)
    ultimately show ?thesis using l by auto
  qed
qed

lemma foldl_max_Max:
  fixes xs :: "real list"
  assumes "xs \<noteq> []"
  shows "foldl max a xs = Max (insert a (set xs))"
  using assms
proof (induction xs arbitrary: a)
  case Nil
  then show ?case by simp
next
  case (Cons x xs)
  show ?case
  proof (cases "xs = []")
    case True
    then show ?thesis by (simp add: max.commute)
  next
    case False
    have "foldl max a (x # xs) = Max (insert (max a x) (set xs))"
      using Cons.IH [OF False] by simp
    also have "\<dots> = Max (insert a (insert x (set xs)))"
      using False by (simp add: max.assoc)
    finally show ?thesis by simp
  qed
qed

lemma foldl_max_nonneg:
  fixes xs :: "real list"
  assumes "\<forall>x \<in> set xs. 0 \<le> x"
  shows "foldl max 0 xs = (if xs = [] then 0 else Max (set xs))"
proof (cases "xs = []")
  case True
  then show ?thesis by simp
next
  case False
  then have "foldl max 0 xs = Max (insert 0 (set xs))" by (rule foldl_max_Max)
  also have "\<dots> = max 0 (Max (set xs))" using False by simp
  also have "\<dots> = Max (set xs)"
  proof -
    obtain x where "x \<in> set xs" using False by (cases xs) auto
    then have "0 \<le> x" "x \<le> Max (set xs)" using assms by simp_all
    then show ?thesis by simp
  qed
  finally show ?thesis using False by simp
qed

lemma aggregated_degree_empty: "aggregated_degree [] v s = 0"
  by (simp add: aggregated_degree_def)

lemma test_run_inferred:
  "infer test_fuzzified (rules test_case) [] = ([], Inr test_inferred)"
  by code_simp

text \<open>
  Claim C7. After the rule loop of a run, the aggregated degree of an (output variable,
  output set) pair is the maximum of the firing strengths of the rules that conclude the
  pair, and 0 when no rule concludes it. One aggregation step never lowers an aggregated
  degree, so a later rule with a lower strength does not overwrite a higher one.
\<close>

theorem aggregation_is_maximum:
  "(fuzzify_inputs vars crisp [] = (out, Inr (Some fz)) \<and>
    infer fz rs [] = (out', Inr inferred) \<longrightarrow>
      (\<exists>strengths.
         list_all2 (\<lambda>r st. snd (firing_strength fz (fst r) 1) = Inr st) (concluding rs v s) strengths \<and>
         aggregated_degree inferred v s = (if strengths = [] then 0 else Max (set strengths)))) \<and>
   aggregated_degree acc v s \<le> aggregated_degree (aggregate acc out_var out_set m) v s"
proof (intro conjI impI)
  assume a: "fuzzify_inputs vars crisp [] = (out, Inr (Some fz)) \<and> infer fz rs [] = (out', Inr inferred)"
  then have u: "unit_degrees fz" using fuzzified_unit by blast
  from a infer_aggregated [of fz rs "[]" out' inferred v s] obtain strengths where
    l: "list_all2 (\<lambda>r st. snd (firing_strength fz (fst r) 1) = Inr st) (concluding rs v s) strengths"
    and g: "aggregated_degree inferred v s = foldl max 0 strengths"
    by (auto simp: aggregated_degree_empty)
  have "\<forall>x \<in> set strengths. 0 \<le> x"
  proof
    fix x assume "x \<in> set strengths"
    then obtain r where "snd (firing_strength fz (fst r) 1) = Inr x"
      using l by (auto simp: list_all2_conv_all_nth in_set_conv_nth)
    then show "0 \<le> x" using firing_strength_unit [OF u] by blast
  qed
  then have "foldl max 0 strengths = (if strengths = [] then 0 else Max (set strengths))"
    by (rule foldl_max_nonneg)
  with l g show "\<exists>strengths.
         list_all2 (\<lambda>r st. snd (firing_strength fz (fst r) 1) = Inr st) (concluding rs v s) strengths \<and>
         aggregated_degree inferred v s = (if strengths = [] then 0 else Max (set strengths))"
    by auto
next
  show "aggregated_degree acc v s \<le> aggregated_degree (aggregate acc out_var out_set m) v s"
    by (simp add: aggregated_degree_aggregate)
qed

theorem aggregation_is_maximum_witness:
  "fuzzify_inputs (variables test_case) test_inputs [] = ([], Inr (Some test_fuzzified)) \<and>
   infer test_fuzzified (rules test_case) [] = ([], Inr test_inferred) \<and>
   (\<exists>strengths.
      list_all2 (\<lambda>r st. snd (firing_strength test_fuzzified (fst r) 1) = Inr st)
        (concluding (rules test_case) ''risk'' ''normal'') strengths \<and>
      aggregated_degree test_inferred ''risk'' ''normal'' =
        (if strengths = [] then 0 else Max (set strengths))) \<and>
   aggregated_degree test_inferred ''risk'' ''normal'' \<le>
     aggregated_degree (aggregate test_inferred ''risk'' ''normal'' 0) ''risk'' ''normal''"
  using test_run_fuzzified test_run_inferred
    aggregation_is_maximum
      [where vars = "variables test_case" and crisp = test_inputs and out = "[]"
         and fz = test_fuzzified and rs = "rules test_case" and out' = "[]"
         and inferred = test_inferred and v = "''risk''" and s = "''normal''"
         and acc = test_inferred and out_var = "''risk''" and out_set = "''normal''" and m = 0]
  by simp

subsection \<open>Defuzzification\<close>

lemma defuzzify_sets_sums:
  assumes "sets_defined fsets outp"
  shows "defuzzify_sets fsets outp n d =
         Inr (n + weighted_sum fsets (finite_degrees outp), d + degree_sum (finite_degrees outp))"
  using assms
proof (induction fsets outp n d rule: defuzzify_sets.induct)
  case (1 fsets numerator denominator)
  then show ?case by (simp add: weighted_sum_def degree_sum_def)
next
  case (2 fsets set_name rest numerator denominator)
  then show ?case by (simp add: sets_defined_def)
next
  case (3 fsets set_name rest numerator denominator)
  then show ?case by (simp add: sets_defined_def)
next
  case (4 fsets set_name degree rest numerator denominator)
  from "4.prems" obtain fs where fs: "map_of fsets set_name = Some fs" "fs_values fs \<noteq> []"
    and rest: "sets_defined fsets rest"
    by (auto simp: sets_defined_def split: option.splits)
  have c: "true_div (sum_list (fs_values fs)) (real (length (fs_values fs))) = Inr (mean (fs_values fs))"
    using fs(2) by (simp add: true_div_def mean_def)
  show ?case
    using "4.IH" [OF fs(1) c rest] fs(1) c
    by (simp add: weighted_sum_def degree_sum_def representative_def algebra_simps)
qed

lemma defuzzify_sets_defined:
  assumes "defuzzify_sets fsets outp n d = Inr r"
  shows "sets_defined fsets outp"
  using assms
proof (induction fsets outp n d rule: defuzzify_sets.induct)
  case (1 fsets numerator denominator)
  then show ?case by (simp add: sets_defined_def)
next
  case (2 fsets set_name rest numerator denominator)
  then show ?case by (simp add: sets_defined_def)
next
  case (3 fsets set_name rest numerator denominator)
  then show ?case by (simp add: sets_defined_def)
next
  case (4 fsets set_name degree rest numerator denominator)
  from "4.prems" obtain fs centroid where fs: "map_of fsets set_name = Some fs"
    and c: "true_div (sum_list (fs_values fs)) (real (length (fs_values fs))) = Inr centroid"
    and r: "defuzzify_sets fsets rest (numerator + degree * centroid) (denominator + degree) = Inr r"
    by (auto split: option.splits sum.splits)
  from c have "fs_values fs \<noteq> []" by (auto simp: true_div_def split: if_splits)
  with "4.IH" [OF fs c r] fs show ?case by (simp add: sets_defined_def)
qed

lemma defuzzify_results:
  assumes "outputs_defined vars inferred" "distinct (map fst inferred)"
  shows "\<exists>results. defuzzify vars inferred acc = Inr results \<and>
           (\<forall>v. map_of results v =
              (case map_of inferred v of
                 None \<Rightarrow> map_of acc v
               | Some outp \<Rightarrow>
                   (case map_of vars v of
                      None \<Rightarrow> None
                    | Some variable \<Rightarrow> Some (weighted_average (fuzzy_sets variable) outp))))"
  using assms
proof (induction inferred arbitrary: acc)
  case Nil
  then show ?case by simp
next
  case (Cons p rest)
  obtain k outp where p: "p = (k, outp)" by (cases p) auto
  from Cons.prems p obtain variable where var: "map_of vars k = Some variable"
    and sd: "sets_defined (fuzzy_sets variable) outp" and od: "outputs_defined vars rest"
    by (auto simp: outputs_defined_def split: option.splits)
  from Cons.prems p have dist: "distinct (map fst rest)" and fresh: "map_of rest k = None"
    by (auto simp: map_of_eq_None_iff)
  let ?r = "weighted_average (fuzzy_sets variable) outp"
  have step: "defuzzify vars (p # rest) acc = defuzzify vars rest (AList.update k ?r acc)"
    using var defuzzify_sets_sums [OF sd, of 0 0]
    by (simp add: p weighted_average_def)
  from Cons.IH [OF od dist, of "AList.update k ?r acc"] obtain results where
    res: "defuzzify vars rest (AList.update k ?r acc) = Inr results"
    and m: "\<forall>v. map_of results v =
              (case map_of rest v of
                 None \<Rightarrow> map_of (AList.update k ?r acc) v
               | Some outp \<Rightarrow>
                   (case map_of vars v of
                      None \<Rightarrow> None
                    | Some variable \<Rightarrow> Some (weighted_average (fuzzy_sets variable) outp)))"
    by blast
  have "\<forall>v. map_of results v =
              (case map_of (p # rest) v of
                 None \<Rightarrow> map_of acc v
               | Some outp \<Rightarrow>
                   (case map_of vars v of
                      None \<Rightarrow> None
                    | Some variable \<Rightarrow> Some (weighted_average (fuzzy_sets variable) outp)))"
    using m fresh var by (auto simp: p map_of_update_Some split: option.splits)
  with step res show ?case by auto
qed

lemma defuzzify_defined:
  assumes "defuzzify vars inferred acc = Inr results"
  shows "outputs_defined vars inferred"
  using assms
proof (induction inferred arbitrary: acc)
  case Nil
  then show ?case by (simp add: outputs_defined_def)
next
  case (Cons p rest)
  obtain k outp where p: "p = (k, outp)" by (cases p) auto
  from Cons.prems p obtain variable n d where var: "map_of vars k = Some variable"
    and s: "defuzzify_sets (fuzzy_sets variable) outp 0 0 = Inr (n, d)"
    and r: "defuzzify vars rest (AList.update k (if d > 0 then n / d else 0) acc) = Inr results"
    by (auto split: option.splits sum.splits)
  have "sets_defined (fuzzy_sets variable) outp" using s by (rule defuzzify_sets_defined)
  moreover have "outputs_defined vars rest" using r by (rule Cons.IH)
  ultimately show ?case using var by (simp add: outputs_defined_def p)
qed

text \<open>
  Claim C5. For an output variable with an entry in \<open>inferred_outputs\<close>, the loop
  stores the quotient of the sum of degree times mean of the set's parameters by the sum
  of the degrees, both sums taken over the variable's (set, degree) pairs whose degree is
  not one of the two infinities. The quotient is taken when the sum of the degrees is
  positive; otherwise the stored value is 0. The loop returns whenever its lookups are
  defined.
\<close>

theorem defuzzify_is_weighted_average:
  assumes "distinct (map fst inferred)" and "map_of inferred v = Some outp"
    and "map_of vars v = Some variable"
  shows "(outputs_defined vars inferred \<longrightarrow> (\<exists>results. defuzzify vars inferred [] = Inr results)) \<and>
         (\<forall>results. defuzzify vars inferred [] = Inr results \<longrightarrow>
            map_of results v =
              Some (if degree_sum (finite_degrees outp) > 0
                    then weighted_sum (fuzzy_sets variable) (finite_degrees outp) /
                         degree_sum (finite_degrees outp)
                    else 0))"
proof (intro conjI impI allI)
  assume "outputs_defined vars inferred"
  then show "\<exists>results. defuzzify vars inferred [] = Inr results"
    using defuzzify_results [OF _ assms(1), of vars "[]"] by blast
next
  fix results
  assume r: "defuzzify vars inferred [] = Inr results"
  then have "outputs_defined vars inferred" by (rule defuzzify_defined)
  from defuzzify_results [OF this assms(1), of "[]"] r assms(2,3)
  show "map_of results v =
              Some (if degree_sum (finite_degrees outp) > 0
                    then weighted_sum (fuzzy_sets variable) (finite_degrees outp) /
                         degree_sum (finite_degrees outp)
                    else 0)"
    by (auto simp: weighted_average_def)
qed

theorem defuzzify_is_weighted_average_witness:
  "distinct (map fst inferred_with_infinity) \<and>
   outputs_defined (variables test_case) inferred_with_infinity \<and>
   (\<exists>results. defuzzify (variables test_case) inferred_with_infinity [] = Inr results \<and>
      map_of results ''risk'' = Some (145 / 3))"
proof -
  let ?risk = "\<lparr>var_name = ''risk'', var_type = ''OUT'', var_range = [0, 100],
      fuzzy_sets =
        [(''low'', FuzzySet_init ''low'' ''TRI'' [0, 25, 50]),
         (''normal'', FuzzySet_init ''normal'' ''TRI'' [25, 50, 75]),
         (''high'', FuzzySet_init ''high'' ''TRI'' [50, 100, 100])]\<rparr>"
  let ?outp = "[(''low'', Finite 1), (''normal'', PosInf), (''high'', Finite (2 / 3))]"
  have h1: "distinct (map fst inferred_with_infinity)"
    by code_simp
  have h2: "map_of inferred_with_infinity ''risk'' = Some ?outp"
    by code_simp
  have h3: "map_of (variables test_case) ''risk'' = Some ?risk"
    by code_simp
  have h4: "outputs_defined (variables test_case) inferred_with_infinity"
    by code_simp
  have v: "(if degree_sum (finite_degrees ?outp) > 0
            then weighted_sum (fuzzy_sets ?risk) (finite_degrees ?outp) /
                 degree_sum (finite_degrees ?outp)
            else 0) = 145 / 3"
    by code_simp
  note t = defuzzify_is_weighted_average [OF h1 h2 h3]
  from t h4 obtain results where
    a: "defuzzify (variables test_case) inferred_with_infinity [] = Inr results"
    by blast
  from t a have "map_of results ''risk'' =
      Some (if degree_sum (finite_degrees ?outp) > 0
            then weighted_sum (fuzzy_sets ?risk) (finite_degrees ?outp) /
                 degree_sum (finite_degrees ?outp)
            else 0)"
    by blast
  then have "map_of results ''risk'' = Some (145 / 3)"
    by (simp only: v)
  with h1 h4 a show ?thesis by blast
qed

lemma update_member:
  assumes "(k', v') \<in> set (AList.update k v al)"
  shows "(k', v') = (k, v) \<or> (k', v') \<in> set al"
  using assms by (induction al) (auto split: if_splits)

lemma aggregate_distinct:
  assumes "distinct (map fst acc)"
  shows "distinct (map fst (aggregate acc out_var out_set m))"
  using assms by (simp add: aggregate_def Let_def distinct_update)

lemma infer_distinct:
  assumes "infer fz rs acc = (out, Inr inferred)" "distinct (map fst acc)"
  shows "distinct (map fst inferred)"
  using assms
proof (induction rs arbitrary: acc out)
  case Nil
  then show ?case by simp
next
  case (Cons r rest)
  obtain in_vars out_var out_set where r: "r = (in_vars, out_var, out_set)" by (cases r) auto
  from Cons.prems(1) r obtain o2 m where
    rest: "infer fz rest (aggregate acc out_var out_set m) = (o2, Inr inferred)"
    by (auto split: prod.splits sum.splits)
  show ?case
    using Cons.IH [OF rest aggregate_distinct [OF Cons.prems(2)]] .
qed

lemma as_floats_keys: "map fst (as_floats inferred) = map fst inferred"
  by (induction inferred) (auto simp: as_floats_def)

lemma as_floats_lookup:
  "map_of (as_floats inferred) v =
     map_option (map (\<lambda>(s, d). (s, Finite d))) (map_of inferred v)"
  by (induction inferred) (auto simp: as_floats_def)

lemma finite_degrees_Finite: "finite_degrees (map (\<lambda>(s, d). (s, Finite d)) outp) = outp"
  by (induction outp) auto

lemma degree_sum_zero:
  assumes "list_all (\<lambda>(s, d). d = 0) outp"
  shows "degree_sum outp = 0"
  using assms by (induction outp) (auto simp: degree_sum_def)

lemma run_simulation_phases:
  assumes "fuzzify_inputs (variables self) crisp [] = (o1, Inr (Some fz))"
    and "infer fz (rules self) [] = (o2, Inr inferred)"
  shows "run_simulation self crisp =
           (case defuzzify (variables self) (as_floats inferred) [] of
              Inl e \<Rightarrow> (o1 @ o2, Inl e)
            | Inr results \<Rightarrow> (o1 @ o2, Inr (Some results)))"
  using assms by (simp add: run_simulation_def)

text \<open>
  Claim C8, amended. When an output variable has an entry in \<open>inferred_outputs\<close> (some
  rule concludes it) and all its aggregated degrees are 0, the results of the run hold 0
  for that variable: the variable is present, with value 0. The run returns results
  whenever the lookups of the defuzzification loop are defined.
\<close>

theorem unfired_output_is_zero:
  assumes "fuzzify_inputs (variables self) crisp [] = (o1, Inr (Some fz))"
    and "infer fz (rules self) [] = (o2, Inr inferred)"
    and "map_of inferred v = Some outp"
    and "list_all (\<lambda>(s, d). d = 0) outp"
  shows "(outputs_defined (variables self) (as_floats inferred) \<longrightarrow>
           (\<exists>results. run_simulation self crisp = (o1 @ o2, Inr (Some results)))) \<and>
         (\<forall>out results. run_simulation self crisp = (out, Inr (Some results)) \<longrightarrow>
            map_of results v = Some 0)"
proof -
  have dist: "distinct (map fst (as_floats inferred))"
    using infer_distinct [OF assms(2)] by (simp add: as_floats_keys)
  have look: "map_of (as_floats inferred) v = Some (map (\<lambda>(s, d). (s, Finite d)) outp)"
    using assms(3) by (simp add: as_floats_lookup)
  have zero: "weighted_average fsets (map (\<lambda>(s, d). (s, Finite d)) outp) = 0" for fsets
    using degree_sum_zero [OF assms(4)] by (simp add: weighted_average_def finite_degrees_Finite)
  note run = run_simulation_phases [OF assms(1,2)]
  show ?thesis
  proof (intro conjI impI allI)
    assume "outputs_defined (variables self) (as_floats inferred)"
    from defuzzify_results [OF this dist, of "[]"] run
    show "\<exists>results. run_simulation self crisp = (o1 @ o2, Inr (Some results))"
      by auto
  next
    fix out results
    assume r: "run_simulation self crisp = (out, Inr (Some results))"
    with run have d: "defuzzify (variables self) (as_floats inferred) [] = Inr results"
      by (auto split: sum.splits)
    then have od: "outputs_defined (variables self) (as_floats inferred)"
      by (rule defuzzify_defined)
    have "(v, map (\<lambda>(s, d). (s, Finite d)) outp) \<in> set (as_floats inferred)"
      using look by (rule map_of_SomeD)
    with od obtain variable where var: "map_of (variables self) v = Some variable"
      by (fastforce simp: outputs_defined_def list_all_iff split: option.splits)
    from defuzzify_results [OF od dist, of "[]"] d look var zero
    show "map_of results v = Some 0"
      by auto
  qed
qed

theorem unfired_output_is_zero_witness:
  "fuzzify_inputs (variables fan_system) [(''temp'', 30)] [] =
     ([], Inr (Some [(''temp'', [(''hot'', Some 0)])])) \<and>
   infer [(''temp'', [(''hot'', Some 0)])] (rules fan_system) [] =
     ([], Inr [(''fan'', [(''fast'', 0)])]) \<and>
   outputs_defined (variables fan_system) (as_floats [(''fan'', [(''fast'', 0)])]) \<and>
   (\<exists>results. run_simulation fan_system [(''temp'', 30)] = ([], Inr (Some results)) \<and>
      map_of results ''fan'' = Some 0)"
proof -
  have h1: "fuzzify_inputs (variables fan_system) [(''temp'', 30)] [] =
              ([], Inr (Some [(''temp'', [(''hot'', Some 0)])]))"
    by code_simp
  have h2: "infer [(''temp'', [(''hot'', Some 0)])] (rules fan_system) [] =
              ([], Inr [(''fan'', [(''fast'', 0)])])"
    by code_simp
  have h3: "map_of [(''fan'', [(''fast'', 0 :: real)])] ''fan'' = Some [(''fast'', 0)]"
    by simp
  have h4: "list_all (\<lambda>(s, d). d = 0) [(''fast'', 0 :: real)]"
    by simp
  have h5: "outputs_defined (variables fan_system) (as_floats [(''fan'', [(''fast'', 0)])])"
    by code_simp
  note t = unfired_output_is_zero [OF h1 h2 h3 h4]
  from t h5 obtain results where
    a: "run_simulation fan_system [(''temp'', 30)] = ([] @ [], Inr (Some results))"
    by blast
  from t a have "map_of results ''fan'' = Some 0"
    by blast
  with h1 h2 h5 a show ?thesis by auto
qed

text \<open>
  Claim C8 says that an output variable for which no rule fires is reported as 0, not as
  missing. The defuzzification loop runs over the entries of \<open>inferred_outputs\<close> only:
  with a second output variable \<open>cost\<close> that no rule concludes, the test run of the
  predefined system returns a value for \<open>risk\<close> and no entry for \<open>cost\<close>.
\<close>

theorem unconcluded_output_is_missing:
  "map_of (variables (add_variable test_case (Variable_init ''cost'' ''OUT'' [0, 100]))) ''cost'' =
     Some (Variable_init ''cost'' ''OUT'' [0, 100]) \<and>
   run_simulation (add_variable test_case (Variable_init ''cost'' ''OUT'' [0, 100])) test_inputs =
     ([], Inr (Some [(''risk'', 875 / 18)])) \<and>
   map_of [(''risk'', 875 / 18 :: real)] ''cost'' = None"
  by code_simp

subsection \<open>The whole run\<close>

lemma infer_total:
  assumes "list_all (\<lambda>r. clauses_ok fz (fst r)) rs"
  shows "\<exists>out inferred. infer fz rs acc = (out, Inr inferred)"
  using assms
proof (induction rs arbitrary: acc)
  case Nil
  then show ?case by simp
next
  case (Cons r rest)
  obtain in_vars out_var out_set where r: "r = (in_vars, out_var, out_set)" by (cases r) auto
  from Cons.prems r have ok: "clauses_ok fz in_vars"
    and rest: "list_all (\<lambda>r. clauses_ok fz (fst r)) rest"
    by simp_all
  obtain o1 where fs: "firing_strength fz in_vars 1 = (o1, Inr (fold_strength fz in_vars))"
    using firing_strength_foldl [OF ok, of 1]
    by (cases "firing_strength fz in_vars 1") (auto simp: fold_strength_def)
  obtain o2 inferred where
    "infer fz rest (aggregate acc out_var out_set (fold_strength fz in_vars)) = (o2, Inr inferred)"
    using Cons.IH [OF rest] by blast
  then show ?case
    using fs by (simp add: r)
qed

lemma outputs_defined_as_floats:
  "outputs_defined vars (as_floats inferred) \<longleftrightarrow>
     (\<forall>(v, outp) \<in> set inferred.
        \<exists>variable. map_of vars v = Some variable \<and>
          (\<forall>(s, d) \<in> set outp.
             \<exists>fs. map_of (fuzzy_sets variable) s = Some fs \<and> fs_values fs \<noteq> []))"
  by (fastforce simp: outputs_defined_def sets_defined_def as_floats_def finite_degrees_Finite
        list_all_iff split: option.splits)

lemma aggregate_defined:
  assumes "outputs_defined vars (as_floats acc)"
    and "map_of vars out_var = Some variable"
    and "map_of (fuzzy_sets variable) out_set = Some fs" "fs_values fs \<noteq> []"
  shows "outputs_defined vars (as_floats (aggregate acc out_var out_set m))"
proof -
  let ?P = "\<lambda>v outp. \<exists>variable. map_of vars v = Some variable \<and>
          (\<forall>(s, d) \<in> set outp.
             \<exists>fs. map_of (fuzzy_sets variable) s = Some fs \<and> fs_values fs \<noteq> [])"
  have old: "\<And>v outp. (v, outp) \<in> set acc \<Longrightarrow> ?P v outp"
    using assms(1) by (auto simp: outputs_defined_as_floats)
  define outp0 where "outp0 = (case map_of acc out_var of None \<Rightarrow> [] | Some d \<Rightarrow> d)"
  define x where "x = max (case map_of outp0 out_set of None \<Rightarrow> 0 | Some d \<Rightarrow> d) m"
  have agg: "aggregate acc out_var out_set m =
             AList.update out_var (AList.update out_set x outp0) acc"
    by (auto simp: aggregate_def Let_def outp0_def x_def map_of_update_Some update_last
             split: option.splits)
  have p0: "\<forall>(s, d) \<in> set outp0.
             \<exists>fs. map_of (fuzzy_sets variable) s = Some fs \<and> fs_values fs \<noteq> []"
  proof (cases "map_of acc out_var")
    case None
    then show ?thesis by (simp add: outp0_def)
  next
    case (Some d0)
    then have "(out_var, d0) \<in> set acc" by (rule map_of_SomeD)
    from old [OF this] assms(2) Some show ?thesis by (auto simp: outp0_def)
  qed
  have new: "?P out_var (AList.update out_set x outp0)"
    using p0 assms(2,3,4) by (auto dest!: update_member)
  have "\<And>v outp. (v, outp) \<in> set (aggregate acc out_var out_set m) \<Longrightarrow> ?P v outp"
  proof -
    fix v outp
    assume "(v, outp) \<in> set (aggregate acc out_var out_set m)"
    then have "(v, outp) = (out_var, AList.update out_set x outp0) \<or> (v, outp) \<in> set acc"
      unfolding agg by (rule update_member)
    then show "?P v outp"
      using new old by blast
  qed
  then show ?thesis
    unfolding outputs_defined_as_floats by blast
qed

lemma infer_defined:
  assumes "infer fz rs acc = (out, Inr inferred)"
    and "list_all (rule_ok vars fz) rs"
    and "outputs_defined vars (as_floats acc)"
  shows "outputs_defined vars (as_floats inferred)"
  using assms
proof (induction rs arbitrary: acc out)
  case Nil
  then show ?case by simp
next
  case (Cons r rest)
  obtain in_vars out_var out_set where r: "r = (in_vars, out_var, out_set)" by (cases r) auto
  from Cons.prems(1) r obtain o2 m where
    rest: "infer fz rest (aggregate acc out_var out_set m) = (o2, Inr inferred)"
    by (auto split: prod.splits sum.splits)
  from Cons.prems(2) r have this_ok: "rule_ok vars fz (in_vars, out_var, out_set)"
    and ok: "list_all (rule_ok vars fz) rest"
    by simp_all
  from this_ok obtain variable fs where
    "map_of vars out_var = Some variable" "map_of (fuzzy_sets variable) out_set = Some fs"
    "fs_values fs \<noteq> []"
    by (auto simp: rule_ok_def split: option.splits)
  then have "outputs_defined vars (as_floats (aggregate acc out_var out_set m))"
    using aggregate_defined [OF Cons.prems(3)] by blast
  with Cons.IH [OF rest ok] show ?case .
qed

lemma outputs_defined_empty: "outputs_defined vars (as_floats [])"
  by (simp add: outputs_defined_def as_floats_def)

text \<open>
  Claim C3, amended. When fuzzification succeeds and every rule is well formed (each
  clause names a variable with an entry in \<open>fuzzified_values\<close> and reads a number or a
  missing set; the consequent names a fuzzy set, with at least one parameter, of a
  variable of the model), \<open>run_simulation\<close> returns a results mapping.
\<close>

theorem run_returns_for_well_formed_rules:
  assumes "fuzzify_inputs (variables self) crisp [] = (o1, Inr (Some fz))"
    and "list_all (rule_ok (variables self) fz) (rules self)"
  shows "\<exists>out results. run_simulation self crisp = (out, Inr (Some results))"
proof -
  have "list_all (\<lambda>r. clauses_ok fz (fst r)) (rules self)"
    using assms(2) by (auto simp: list_all_iff rule_ok_def)
  then obtain o2 inferred where inf: "infer fz (rules self) [] = (o2, Inr inferred)"
    using infer_total by blast
  have od: "outputs_defined (variables self) (as_floats inferred)"
    using infer_defined [OF inf assms(2) outputs_defined_empty] .
  have dist: "distinct (map fst (as_floats inferred))"
    using infer_distinct [OF inf] by (simp add: as_floats_keys)
  from defuzzify_results [OF od dist, of "[]"] run_simulation_phases [OF assms(1) inf]
  show ?thesis by auto
qed

theorem run_returns_for_well_formed_rules_witness:
  "fuzzify_inputs (variables test_case) test_inputs [] = ([], Inr (Some test_fuzzified)) \<and>
   list_all (rule_ok (variables test_case) test_fuzzified) (rules test_case) \<and>
   (\<exists>out results. run_simulation test_case test_inputs = (out, Inr (Some results)))"
proof -
  have h: "list_all (rule_ok (variables test_case) test_fuzzified) (rules test_case)"
    by code_simp
  show ?thesis
    using test_run_fuzzified h run_returns_for_well_formed_rules [OF test_run_fuzzified h]
    by blast
qed

text \<open>
  Claim C3 says that the run returns a mapping for all rule contents once the input names
  are variables of the model. With the input \<open>temp = 5\<close> fuzzification succeeds, and the
  run raises \<open>KeyError\<close> for a rule whose clause names a variable that is not among the
  inputs, for a rule whose consequent variable is not in the model, and for a rule whose
  consequent set is not among the fuzzy sets of the output variable.
\<close>

theorem run_fails_after_fuzzification:
  "fuzzify_inputs (variables fan_system) [(''temp'', 5)] [] =
     ([], Inr (Some [(''temp'', [(''hot'', Some (1 / 2))])])) \<and>
   run_simulation
     (add_rule fan_system ([(''fan'', ''fast'', ''and'')], ''fan'', ''fast''))
     [(''temp'', 5)] = ([], Inl (KeyError ''fan'')) \<and>
   run_simulation
     (add_rule fan_system ([(''temp'', ''hot'', ''and'')], ''ghost'', ''fast''))
     [(''temp'', 5)] = ([], Inl (KeyError ''ghost'')) \<and>
   run_simulation
     (add_rule fan_system ([(''temp'', ''hot'', ''and'')], ''fan'', ''slow''))
     [(''temp'', 5)] = ([], Inl (KeyError ''slow''))"
  by code_simp

lemma fuzzify_inputs_append:
  assumes "fuzzify_inputs vars pre acc = (o1, Inr (Some fz))"
  shows "fuzzify_inputs vars (pre @ rest) acc = fuzzify_inputs vars rest fz"
  using assms
proof (induction vars pre acc rule: fuzzify_inputs.induct)
  case (1 vars fuzzified_values)
  then show ?case by simp
next
  case (2 vars v_name crisp_value more fuzzified_values)
  from "2.prems" obtain variable degrees where
    v: "map_of vars v_name = Some variable" and
    d: "fuzzify_sets (fuzzy_sets variable) crisp_value [] = Inr degrees" and
    r: "fuzzify_inputs vars more (AList.update v_name degrees fuzzified_values) = (o1, Inr (Some fz))"
    by (auto split: option.splits sum.splits)
  show ?case
    using "2.IH" [OF v d r] v d by simp
qed

lemma fuzzify_inputs_known:
  assumes "fuzzify_inputs vars crisp acc = (o1, Inr (Some fz))" and "(n, x) \<in> set crisp"
  shows "map_of vars n \<noteq> None"
  using assms
proof (induction vars crisp acc rule: fuzzify_inputs.induct)
  case (1 vars fuzzified_values)
  then show ?case by simp
next
  case (2 vars v_name crisp_value more fuzzified_values)
  from "2.prems"(1) obtain variable degrees where
    v: "map_of vars v_name = Some variable" and
    d: "fuzzify_sets (fuzzy_sets variable) crisp_value [] = Inr degrees" and
    r: "fuzzify_inputs vars more (AList.update v_name degrees fuzzified_values) = (o1, Inr (Some fz))"
    by (auto split: option.splits sum.splits)
  show ?case
  proof (cases "(n, x) = (v_name, crisp_value)")
    case True
    with v show ?thesis by simp
  next
    case False
    with "2.prems"(2) have "(n, x) \<in> set more" by auto
    with "2.IH" [OF v d r] show ?thesis .
  qed
qed

lemma run_simulation_results:
  assumes "run_simulation self crisp = (out, Inr (Some results))"
  shows "\<exists>o1 fz. fuzzify_inputs (variables self) crisp [] = (o1, Inr (Some fz))"
proof -
  obtain o1 r where f: "fuzzify_inputs (variables self) crisp [] = (o1, r)"
    by (cases "fuzzify_inputs (variables self) crisp []") auto
  with assms show ?thesis
    by (auto simp: run_simulation_def split: sum.splits option.splits prod.splits)
qed

text \<open>
  Claim C4 says that every input mapping with an unknown name ends in the
  undefined-variable outcome. In the predefined system the entry for \<open>proj_funding\<close>
  is fuzzified before the unknown name is looked at, and at 0 the set \<open>very_low\<close>
  divides by zero: the run ends with \<open>ZeroDivisionError\<close>.
\<close>

theorem exception_precedes_unknown_name:
  "map_of (variables test_case) ''nope'' = None \<and>
   run_simulation test_case [(''proj_funding'', 0), (''nope'', 40)] = ([], Inl ZeroDivisionError)"
  by code_simp

text \<open>
  Claim C4, amended. For an input mapping that holds a name \<open>n\<close> that is not a variable
  of the model, the run never returns results. When the entries before \<open>n\<close> are
  fuzzified without an exception (so their names are known), the run prints the line
  that names \<open>n\<close> and returns \<open>None\<close>.
\<close>

theorem unknown_input_stops_run:
  assumes "map_of (variables self) n = None"
  shows "(fuzzify_inputs (variables self) pre [] = (o1, Inr (Some fz)) \<longrightarrow>
            run_simulation self (pre @ (n, x) # post) = ([NotDefined n], Inr None)) \<and>
         (\<forall>out results. run_simulation self (pre @ (n, x) # post) \<noteq> (out, Inr (Some results)))"
proof (intro conjI impI allI)
  assume "fuzzify_inputs (variables self) pre [] = (o1, Inr (Some fz))"
  then have "fuzzify_inputs (variables self) (pre @ (n, x) # post) [] =
             fuzzify_inputs (variables self) ((n, x) # post) fz"
    by (rule fuzzify_inputs_append)
  with assms show "run_simulation self (pre @ (n, x) # post) = ([NotDefined n], Inr None)"
    by (simp add: run_simulation_def)
next
  fix out results
  show "run_simulation self (pre @ (n, x) # post) \<noteq> (out, Inr (Some results))"
  proof
    assume "run_simulation self (pre @ (n, x) # post) = (out, Inr (Some results))"
    then obtain o2 fz' where
      "fuzzify_inputs (variables self) (pre @ (n, x) # post) [] = (o2, Inr (Some fz'))"
      using run_simulation_results by blast
    moreover have "(n, x) \<in> set (pre @ (n, x) # post)"
      by simp
    ultimately have "map_of (variables self) n \<noteq> None"
      by (rule fuzzify_inputs_known)
    with assms show False by simp
  qed
qed

theorem unknown_input_stops_run_witness:
  "map_of (variables test_case) ''nope'' = None \<and>
   fuzzify_inputs (variables test_case) [(''proj_funding'', 50)] [] =
     ([], Inr (Some [(''proj_funding'',
        [(''very_low'', Some 0), (''low'', Some (1 / 2)), (''medium'', Some (1 / 2)),
         (''high'', Some 0)])])) \<and>
   run_simulation test_case ([(''proj_funding'', 50)] @ (''nope'', 1) # [(''exp_level'', 40)]) =
     ([NotDefined ''nope''], Inr None)"
proof -
  have h1: "map_of (variables test_case) ''nope'' = None"
    by code_simp
  have h2: "fuzzify_inputs (variables test_case) [(''proj_funding'', 50)] [] =
     ([], Inr (Some [(''proj_funding'',
        [(''very_low'', Some 0), (''low'', Some (1 / 2)), (''medium'', Some (1 / 2)),
         (''high'', Some 0)])]))"
    by code_simp
  show ?thesis
    using h1 h2
      unknown_input_stops_run
        [OF h1, where pre = "[(''proj_funding'', 50)]" and x = 1 and post = "[(''exp_level'', 40)]"]
    by blast
qed

end
